theory Spec2Isabelle
  imports Main
begin

section \<open>The pairing and relay server (server.js)\<close>

text \<open>
  The server keeps two module-level structures, \<^verbatim>\<open>waitingQueue\<close> (an array of
  socket ids) and \<^verbatim>\<open>partners\<close> (a Map from a socket id to the partner's socket id or
  the string \<^verbatim>\<open>'bot'\<close>), and registers one handler per client event on every socket.
  JavaScript runs each handler to completion, so a handler is a function from the state
  before it to the events it emits and the state after it.

  What the code takes from its libraries is part of the state too:
  \<^item> the socket objects, with their \<^verbatim>\<open>connected\<close> flag and the \<^verbatim>\<open>botTimeout\<close> property
    the \<^verbatim>\<open>find\<close> handler stores on them. The library drops a socket from
    \<^verbatim>\<open>io.sockets.sockets\<close> in the same synchronous step that clears its
    \<^verbatim>\<open>connected\<close> flag, before it calls the \<^verbatim>\<open>disconnect\<close> handler, so the test
    \<^verbatim>\<open>s && s.connected\<close> on \<^verbatim>\<open>io.sockets.sockets.get(id)\<close> is the flag of the socket
    object with that id;
  \<^item> the pending timeouts of the event loop, each with the time it is due and the
    closure it runs, and the clock (in milliseconds).
  Rooms (\<^verbatim>\<open>join\<close>) and \<^verbatim>\<open>console.log\<close> are written but never read, and are left out.
\<close>

subsection \<open>Data\<close>

type_synonym sid = string

record socket =
  connected :: bool
  botTimeout :: "nat option"

text \<open>The argument of \<^verbatim>\<open>message\<close>: an object with a \<^verbatim>\<open>text\<close> string.\<close>

record data =
  msgText :: string

text \<open>
  The argument of the three signalling events. The handlers read \<^verbatim>\<open>payload.to\<close>,
  \<^verbatim>\<open>payload.sdp\<close> and \<^verbatim>\<open>payload.candidate\<close> and never look inside the last two:
  their values are of an arbitrary type \<open>'v\<close>. \<^verbatim>\<open>payload.to\<close> is only used as a key
  of the socket table, whose keys are strings: \<open>None\<close> is a missing or non-string
  \<^verbatim>\<open>to\<close>, which no key equals.
\<close>

record 'v payload =
  to :: "string option"
  sdp :: 'v
  candidate :: 'v

text \<open>The closures given to \<^verbatim>\<open>setTimeout\<close>: the bot fallback of \<^verbatim>\<open>find\<close> and the bot's
  reply of \<^verbatim>\<open>message\<close>, each with the variables it captures.\<close>

datatype callback = BotFallback sid | BotReply sid "data option"

record timer =
  tid :: nat
  due :: nat
  callback :: callback

record state =
  waitingQueue :: "sid list"
  partners :: "sid \<rightharpoonup> string"
  sockets :: "sid \<rightharpoonup> socket"
  timers :: "timer list"
  nextTimer :: nat
  now :: nat

text \<open>What the server emits, with the fields of each event's object.\<close>

datatype 'v emitted =
    Status string
  | Retry
  | Paired string bool
  | PartnerLeft
  | Message string string
  | Typing 'v
  | WebrtcOffer sid 'v
  | WebrtcAnswer sid 'v
  | WebrtcIceCandidate sid 'v

type_synonym 'v out = "(sid \<times> 'v emitted) list"

text \<open>Reading a property of an argument that is \<^verbatim>\<open>undefined\<close> throws.\<close>

datatype error = TypeError

definition initial :: state where
  "initial = \<lparr>waitingQueue = [], partners = Map.empty, sockets = Map.empty,
     timers = [], nextTimer = 0, now = 0\<rparr>"

definition ENABLE_BOT_FALLBACK :: bool where
  "ENABLE_BOT_FALLBACK = True"

definition bot :: string where
  "bot = ''bot''"

text \<open>\<^verbatim>\<open>s && s.connected\<close> for \<^verbatim>\<open>s = io.sockets.sockets.get(id)\<close>.\<close>

definition live :: "state \<Rightarrow> string \<Rightarrow> bool" where
  "live s i = (case sockets s i of None \<Rightarrow> False | Some k \<Rightarrow> connected k)"

text \<open>\<^verbatim>\<open>!partnerId\<close> for the result of \<^verbatim>\<open>partners.get\<close>: \<^verbatim>\<open>undefined\<close> and the empty
  string are falsy.\<close>

definition falsy :: "string option \<Rightarrow> bool" where
  "falsy v = (v = None \<or> v = Some [])"

definition setTimeout :: "callback \<Rightarrow> nat \<Rightarrow> state \<Rightarrow> nat \<times> state" where
  "setTimeout cb delay s =
     (nextTimer s,
      s\<lparr>timers := timers s @ [\<lparr>tid = nextTimer s, due = now s + delay, callback = cb\<rparr>],
        nextTimer := nextTimer s + 1\<rparr>)"

definition clearTimeout :: "nat \<Rightarrow> state \<Rightarrow> state" where
  "clearTimeout i s = s\<lparr>timers := filter (\<lambda>t. tid t \<noteq> i) (timers s)\<rparr>"

subsection \<open>Pairing\<close>

definition pairSockets :: "sid \<Rightarrow> sid \<Rightarrow> state \<Rightarrow> 'v out \<times> state" where
  "pairSockets s1 s2 s =
     ([(s1, Paired s2 False), (s2, Paired s1 False)],
      s\<lparr>partners := ((partners s)(s1 \<mapsto> s2))(s2 \<mapsto> s1)\<rparr>)"

definition greeting :: string where
  "greeting = ''Hi '' @ [CHR 0xE2, CHR 0x80, CHR 0x94] @ '' I'' @ [CHR 0x27]
     @ ''m a bot while you wait. Try '' @ [CHR 0x27] @ ''New'' @ [CHR 0x27]
     @ '' to find a human.''"

text \<open>The closure of the bot fallback, run when its timeout fires.\<close>

definition botFallback :: "sid \<Rightarrow> state \<Rightarrow> 'v out \<times> state" where
  "botFallback h s =
     (if h \<in> set (waitingQueue s) \<and> partners s h = None then
        ([(h, Paired bot True), (h, Message bot greeting)],
         s\<lparr>waitingQueue := filter (\<lambda>i. i \<noteq> h) (waitingQueue s),
           partners := (partners s)(h \<mapsto> bot)\<rparr>)
      else ([], s))"

definition on_find :: "sid \<Rightarrow> state \<Rightarrow> 'v out \<times> state" where
  "on_find h s =
     (if partners s h \<noteq> None then ([(h, Status ''Already connected'')], s)
      else
        (case waitingQueue s of
           otherId # rest \<Rightarrow>
             (let s1 = s\<lparr>waitingQueue := rest\<rparr> in
              if live s1 otherId then pairSockets h otherId s1
              else ([(h, Status ''Candidate disconnected; retrying...''), (h, Retry)], s1))
         | [] \<Rightarrow>
             (let s1 = s\<lparr>waitingQueue := waitingQueue s @ [h]\<rparr>;
                  o1 = [(h, Status ''Waiting for a partner...'')] in
              if ENABLE_BOT_FALLBACK then
                (let (i, s2) = setTimeout (BotFallback h) 15000 s1 in
                 (o1, s2\<lparr>sockets := (sockets s2)
                    (h := map_option (\<lambda>k. k\<lparr>botTimeout := Some i\<rparr>) (sockets s2 h))\<rparr>))
              else (o1, s1))))"

subsection \<open>Signalling\<close>

definition on_webrtc_offer :: "sid \<Rightarrow> 'v payload option \<Rightarrow> state \<Rightarrow> error + 'v out \<times> state" where
  "on_webrtc_offer h payload s =
     (let partnerId = partners s h in
      if falsy partnerId \<or> partnerId = Some bot then Inr ([], s)
      else if live s (the partnerId) then
        (case payload of
           None \<Rightarrow> Inl TypeError
         | Some p \<Rightarrow> Inr ([(the partnerId, WebrtcOffer h (sdp p))], s))
      else Inr ([(h, Status ''Partner disconnected (during offer).'')], s))"

definition on_webrtc_answer :: "sid \<Rightarrow> 'v payload option \<Rightarrow> state \<Rightarrow> error + 'v out \<times> state" where
  "on_webrtc_answer h payload s =
     (case payload of
        None \<Rightarrow> Inl TypeError
      | Some p \<Rightarrow>
          (case to p of
             None \<Rightarrow> Inr ([], s)
           | Some t \<Rightarrow>
               if live s t then Inr ([(t, WebrtcAnswer h (sdp p))], s) else Inr ([], s)))"

definition on_webrtc_ice_candidate ::
  "sid \<Rightarrow> 'v payload option \<Rightarrow> state \<Rightarrow> error + 'v out \<times> state" where
  "on_webrtc_ice_candidate h payload s =
     (let partnerId = partners s h in
      if falsy partnerId \<or> partnerId = Some bot then Inr ([], s)
      else if live s (the partnerId) then
        (case payload of
           None \<Rightarrow> Inl TypeError
         | Some p \<Rightarrow> Inr ([(the partnerId, WebrtcIceCandidate h (candidate p))], s))
      else Inr ([], s))"

subsection \<open>Chat\<close>

definition cleanupPartner :: "sid \<Rightarrow> state \<Rightarrow> state" where
  "cleanupPartner socketId s =
     (let partnerId = partners s socketId in
      if falsy partnerId then s
      else
        (let s1 = (if partnerId \<noteq> Some bot
                   then s\<lparr>partners := (partners s)(the partnerId := None)\<rparr> else s)
         in s1\<lparr>partners := (partners s1)(socketId := None)\<rparr>))"

definition botReplyText :: "string \<Rightarrow> string" where
  "botReplyText t = ''Bot: I heard '' @ [CHR 0x22] @ t @ [CHR 0x22] @ ''.''"

text \<open>The closure of the bot's reply, run when its timeout fires.\<close>

definition botReply :: "sid \<Rightarrow> data option \<Rightarrow> state \<Rightarrow> error + 'v out \<times> state" where
  "botReply h d s =
     (case d of
        None \<Rightarrow> Inl TypeError
      | Some x \<Rightarrow> Inr ([(h, Message bot (botReplyText (msgText x)))], s))"

definition on_message :: "sid \<Rightarrow> data option \<Rightarrow> state \<Rightarrow> error + 'v out \<times> state" where
  "on_message h d s =
     (let partnerId = partners s h in
      if falsy partnerId then Inr ([(h, Status ''No partner to send to.'')], s)
      else if partnerId = Some bot then Inr ([], snd (setTimeout (BotReply h d) 700 s))
      else if live s (the partnerId) then
        (case d of
           None \<Rightarrow> Inl TypeError
         | Some x \<Rightarrow>
             Inr ([(the partnerId, Message ''stranger'' (msgText x)),
                   (h, Message ''you'' (msgText x))], s))
      else Inr ([(h, Status ''Partner disconnected.'')], cleanupPartner h s))"

definition on_typing :: "sid \<Rightarrow> 'v \<Rightarrow> state \<Rightarrow> 'v out \<times> state" where
  "on_typing h isTyping s =
     (let partnerId = partners s h in
      if falsy partnerId \<or> partnerId = Some bot then ([], s)
      else if live s (the partnerId) then ([(the partnerId, Typing isTyping)], s)
      else ([], s))"

subsection \<open>Leaving\<close>

definition on_leave :: "sid \<Rightarrow> state \<Rightarrow> 'v out \<times> state" where
  "on_leave h s =
     (let partnerId = partners s h in
      if partnerId = Some bot then
        ([(h, Status ''Left bot conversation.'')], s\<lparr>partners := (partners s)(h := None)\<rparr>)
      else if falsy partnerId then
        ([(h, Status ''Stopped waiting.'')],
         s\<lparr>waitingQueue := filter (\<lambda>i. i \<noteq> h) (waitingQueue s)\<rparr>)
      else
        (let p = the partnerId;
             (o1, s1) =
               (if live s p then
                  ([(p, Status ''Partner left the chat.''), (p, PartnerLeft)],
                   s\<lparr>partners := (partners s)(p := None)\<rparr>)
                else ([], s))
         in (o1 @ [(h, Status ''You left the chat.'')],
             s1\<lparr>partners := (partners s1)(h := None)\<rparr>)))"

definition on_disconnect :: "sid \<Rightarrow> state \<Rightarrow> 'v out \<times> state" where
  "on_disconnect h s =
     (let s1 = (case sockets s h of
                  Some k \<Rightarrow> (case botTimeout k of Some i \<Rightarrow> clearTimeout i s | None \<Rightarrow> s)
                | None \<Rightarrow> s);
          s2 = s1\<lparr>waitingQueue := filter (\<lambda>i. i \<noteq> h) (waitingQueue s1)\<rparr>;
          partnerId = partners s2 h
      in
      if falsy partnerId then ([], s2)
      else if partnerId = Some bot then ([], s2\<lparr>partners := (partners s2)(h := None)\<rparr>)
      else
        (let p = the partnerId;
             (o1, s3) =
               (if live s2 p then
                  ([(p, Status ''Partner disconnected.''), (p, PartnerLeft)],
                   s2\<lparr>partners := (partners s2)(p := None)\<rparr>)
                else ([], s2))
         in (o1, s3\<lparr>partners := (partners s3)(h := None)\<rparr>)))"

subsection \<open>The event loop\<close>

text \<open>
  The library's part of a connection and of a disconnection: a new socket object,
  connected and with no \<^verbatim>\<open>botTimeout\<close> property; and the flag cleared (the socket
  dropped from \<^verbatim>\<open>io.sockets.sockets\<close>) before the \<^verbatim>\<open>disconnect\<close> handler runs.
\<close>

definition openSocket :: "sid \<Rightarrow> state \<Rightarrow> state" where
  "openSocket h s = s\<lparr>sockets := (sockets s)(h \<mapsto> \<lparr>connected = True, botTimeout = None\<rparr>)\<rparr>"

definition closeSocket :: "sid \<Rightarrow> state \<Rightarrow> state" where
  "closeSocket h s =
     s\<lparr>sockets := (sockets s)(h := map_option (\<lambda>k. k\<lparr>connected := False\<rparr>) (sockets s h))\<rparr>"

definition runCallback :: "callback \<Rightarrow> state \<Rightarrow> error + 'v out \<times> state" where
  "runCallback cb s =
     (case cb of
        BotFallback h \<Rightarrow> Inr (botFallback h s)
      | BotReply h d \<Rightarrow> botReply h d s)"

datatype 'v event =
    Connect sid
  | Find sid
  | Offer sid "'v payload option"
  | Answer sid "'v payload option"
  | IceCandidate sid "'v payload option"
  | Msg sid "data option"
  | TypingEv sid 'v
  | Leave sid
  | Disconnect sid
  | Fire nat
  | Advance nat

text \<open>
  When an event can happen: the library gives a new socket an id that is not in use,
  is not empty and is not the string \<^verbatim>\<open>'bot'\<close> (its ids are twenty random
  characters); a client event comes from a connected socket; a timeout fires when it is
  pending and due.
\<close>

definition pending :: "nat \<Rightarrow> state \<Rightarrow> timer option" where
  "pending i s = find (\<lambda>t. tid t = i) (timers s)"

fun enabled :: "'v event \<Rightarrow> state \<Rightarrow> bool" where
  "enabled (Connect h) s = (h \<noteq> [] \<and> h \<noteq> bot \<and> sockets s h = None)"
| "enabled (Find h) s = live s h"
| "enabled (Offer h p) s = live s h"
| "enabled (Answer h p) s = live s h"
| "enabled (IceCandidate h p) s = live s h"
| "enabled (Msg h d) s = live s h"
| "enabled (TypingEv h b) s = live s h"
| "enabled (Leave h) s = live s h"
| "enabled (Disconnect h) s = live s h"
| "enabled (Fire i) s = (case pending i s of None \<Rightarrow> False | Some t \<Rightarrow> due t \<le> now s)"
| "enabled (Advance d) s = True"

fun handle :: "'v event \<Rightarrow> state \<Rightarrow> error + 'v out \<times> state" where
  "handle (Connect h) s = Inr ([], openSocket h s)"
| "handle (Find h) s = Inr (on_find h s)"
| "handle (Offer h p) s = on_webrtc_offer h p s"
| "handle (Answer h p) s = on_webrtc_answer h p s"
| "handle (IceCandidate h p) s = on_webrtc_ice_candidate h p s"
| "handle (Msg h d) s = on_message h d s"
| "handle (TypingEv h b) s = Inr (on_typing h b s)"
| "handle (Leave h) s = Inr (on_leave h s)"
| "handle (Disconnect h) s = Inr (on_disconnect h (closeSocket h s))"
| "handle (Fire i) s =
     (case pending i s of
        None \<Rightarrow> Inr ([], s)
      | Some t \<Rightarrow> runCallback (callback t) (clearTimeout i s))"
| "handle (Advance d) s = Inr ([], s\<lparr>now := now s + d\<rparr>)"

text \<open>
  A run of the server on a sequence of events, from a state: the events emitted and the
  state reached. There is none (\<open>None\<close>) when an event cannot happen where it stands
  or a handler throws, which ends the process.
\<close>

fun run :: "'v event list \<Rightarrow> state \<Rightarrow> ('v out \<times> state) option" where
  "run [] s = Some ([], s)"
| "run (e # es) s =
     (if enabled e s then
        (case handle e s of
           Inl err \<Rightarrow> None
         | Inr (o1, s1) \<Rightarrow>
             (case run es s1 of None \<Rightarrow> None | Some (o2, s2) \<Rightarrow> Some (o1 @ o2, s2)))
      else None)"

subsection \<open>States used in examples, and the invariant of the reachable states\<close>

text \<open>The state a sequence of events leads to from the initial state.\<close>

definition after :: "unit event list \<Rightarrow> state" where
  "after es = (case run es initial of Some (out, s) \<Rightarrow> s | None \<Rightarrow> initial)"

text \<open>
  What every reachable state satisfies: a directory entry belongs to a connected socket
  and holds \<^verbatim>\<open>'bot'\<close> or the id of a connected socket whose own entry points back; a
  queued socket is connected and has no entry; the queue never holds more than one id
  (\<^verbatim>\<open>find\<close> pushes only onto an empty queue); the ids of connected sockets are not
  empty and not \<^verbatim>\<open>'bot'\<close>.
\<close>

definition consistent :: "state \<Rightarrow> bool" where
  "consistent s \<longleftrightarrow>
     (\<forall>a b. partners s a = Some b \<longrightarrow>
        live s a \<and> b \<noteq> [] \<and> (b = bot \<or> (live s b \<and> partners s b = Some a)))
   \<and> (\<forall>q \<in> set (waitingQueue s). live s q \<and> partners s q = None)
   \<and> length (waitingQueue s) \<le> 1
   \<and> (\<forall>i. live s i \<longrightarrow> i \<noteq> [] \<and> i \<noteq> bot)"

text \<open>
  The states reached by \<^verbatim>\<open>find\<close> events from the handles of a set \<open>D\<close>, each sending
  one: every handle of \<open>D\<close> is queued or has an entry, only handles of \<open>D\<close> are, and no
  entry names its own handle.
\<close>

definition settled :: "state \<Rightarrow> sid set \<Rightarrow> bool" where
  "settled s D \<longleftrightarrow>
     consistent s
   \<and> (\<forall>h \<in> D. h \<in> set (waitingQueue s) \<or> partners s h \<noteq> None)
   \<and> set (waitingQueue s) \<subseteq> D
   \<and> dom (partners s) \<subseteq> D
   \<and> (\<forall>h. partners s h \<noteq> Some h)"

section \<open>Properties\<close>

lemmas eval_defs = after_def on_find_def on_leave_def on_disconnect_def on_message_def
  on_typing_def on_webrtc_offer_def on_webrtc_answer_def on_webrtc_ice_candidate_def
  pairSockets_def botFallback_def botReply_def cleanupPartner_def setTimeout_def
  clearTimeout_def openSocket_def closeSocket_def runCallback_def live_def falsy_def
  pending_def ENABLE_BOT_FALLBACK_def bot_def initial_def

subsection \<open>find\<close>

text \<open>
  C9: for every handle \<open>h\<close> that already has a directory entry (a human partner or
  the bot), \<^verbatim>\<open>find\<close> is rejected: \<open>h\<close> is sent the status \<^verbatim>\<open>Already connected\<close> and the
  state (queue, directory, sockets, timers, clock) is the state before.
\<close>

theorem find_rejected_when_paired:
  "partners s h \<noteq> None \<Longrightarrow> on_find h s = ([(h, Status ''Already connected'')], s)"
  by (simp add: on_find_def)

theorem find_rejected_when_paired_witness:
  "partners (after [Connect ''a'', Connect ''b'', Find ''a'', Find ''b'']) ''a'' \<noteq> None
   \<and> (on_find ''a'' (after [Connect ''a'', Connect ''b'', Find ''a'', Find ''b''])
         :: unit out \<times> state)
       = ([(''a'', Status ''Already connected'')],
          after [Connect ''a'', Connect ''b'', Find ''a'', Find ''b''])"
proof -
  have h: "partners (after [Connect ''a'', Connect ''b'', Find ''a'', Find ''b'']) ''a'' \<noteq> None"
    by (simp add: eval_defs)
  show ?thesis using h find_rejected_when_paired [OF h] by simp
qed

text \<open>
  C1: after any sequence of \<^verbatim>\<open>find\<close> events from connected handles a handle is
  waiting or paired, never both, and never paired with itself. The handler tests
  \<^verbatim>\<open>partners.has(socket.id)\<close> only: a handle that is waiting and sends \<^verbatim>\<open>find\<close> again
  finds its own id at the head of the queue, and \<^verbatim>\<open>pairSockets(socket, socket)\<close> stores
  it as its own partner and tells it so twice.
\<close>

theorem find_while_waiting_pairs_with_self:
  "map_option (\<lambda>(out, s). (out, waitingQueue s, partners s ''a''))
     (run [Connect ''a'', Find ''a'', Find ''a'' :: unit event] initial)
   = Some ([(''a'', Status ''Waiting for a partner...''),
            (''a'', Paired ''a'' False), (''a'', Paired ''a'' False)],
           [], Some ''a'')"
  by (simp add: eval_defs)

subsection \<open>The bot fallback\<close>

text \<open>
  C7: when the bot fallback of \<open>h\<close> fires, it changes nothing and emits nothing unless
  \<open>h\<close> is in the queue and has no directory entry, both tested when it fires; when
  both hold, \<open>h\<close> is removed from the queue, its entry becomes \<^verbatim>\<open>'bot'\<close>, and it is sent
  \<^verbatim>\<open>paired\<close> with \<^verbatim>\<open>{partnerId: 'bot', bot: true}\<close> and then the greeting from \<^verbatim>\<open>bot\<close>.
\<close>

theorem bot_fallback_on_fire:
  assumes "pending i s = Some tm" and "callback tm = BotFallback h"
  shows "(h \<in> set (waitingQueue s) \<and> partners s h = None \<longrightarrow>
            (\<exists>s'. (handle (Fire i) s :: error + 'v out \<times> state)
                 = Inr ([(h, Paired bot True), (h, Message bot greeting)], s')
               \<and> h \<notin> set (waitingQueue s')
               \<and> waitingQueue s' = filter (\<lambda>x. x \<noteq> h) (waitingQueue s)
               \<and> partners s' = (partners s)(h \<mapsto> bot)
               \<and> sockets s' = sockets s))
       \<and> (\<not> (h \<in> set (waitingQueue s) \<and> partners s h = None) \<longrightarrow>
            (\<exists>s'. (handle (Fire i) s :: error + 'v out \<times> state) = Inr ([], s')
               \<and> waitingQueue s' = waitingQueue s
               \<and> partners s' = partners s
               \<and> sockets s' = sockets s))"
  using assms by (simp add: runCallback_def botFallback_def clearTimeout_def)

theorem bot_fallback_on_fire_witness:
  "pending 0 (after [Connect ''a'', Find ''a'', Advance 15000])
     = Some \<lparr>tid = 0, due = 15000, callback = BotFallback ''a''\<rparr>
   \<and> ''a'' \<in> set (waitingQueue (after [Connect ''a'', Find ''a'', Advance 15000]))
   \<and> partners (after [Connect ''a'', Find ''a'', Advance 15000]) ''a'' = None
   \<and> (\<exists>s'. (handle (Fire 0) (after [Connect ''a'', Find ''a'', Advance 15000])
               :: error + unit out \<times> state)
             = Inr ([(''a'', Paired bot True), (''a'', Message bot greeting)], s')
          \<and> ''a'' \<notin> set (waitingQueue s')
          \<and> partners s' ''a'' = Some bot)
   \<and> pending 0 (after [Connect ''a'', Connect ''b'', Find ''a'', Find ''b'', Advance 15000])
     = Some \<lparr>tid = 0, due = 15000, callback = BotFallback ''a''\<rparr>
   \<and> ''a'' \<notin> set (waitingQueue
         (after [Connect ''a'', Connect ''b'', Find ''a'', Find ''b'', Advance 15000]))
   \<and> (\<exists>s'. (handle (Fire 0)
                (after [Connect ''a'', Connect ''b'', Find ''a'', Find ''b'', Advance 15000])
               :: error + unit out \<times> state)
             = Inr ([], s')
          \<and> partners s' ''a'' = Some ''b'')"
proof -
  let ?s = "after [Connect ''a'', Find ''a'', Advance 15000]"
  let ?u = "after [Connect ''a'', Connect ''b'', Find ''a'', Find ''b'', Advance 15000]"
  let ?tm = "\<lparr>tid = 0, due = 15000, callback = BotFallback ''a''\<rparr>"
  have c: "callback ?tm = BotFallback ''a''" by simp
  have p: "pending 0 ?s = Some ?tm" by (simp add: eval_defs)
  have q: "''a'' \<in> set (waitingQueue ?s)" by (simp add: eval_defs)
  have n: "partners ?s ''a'' = None" by (simp add: eval_defs)
  from bot_fallback_on_fire [where ?'v = unit, OF p c] q n
  obtain s' where 1: "(handle (Fire 0) ?s :: error + unit out \<times> state)
        = Inr ([(''a'', Paired bot True), (''a'', Message bot greeting)], s')"
    "''a'' \<notin> set (waitingQueue s')" "partners s' = (partners ?s)(''a'' \<mapsto> bot)"
    by blast
  have p': "pending 0 ?u = Some ?tm" by (simp add: eval_defs)
  have q': "''a'' \<notin> set (waitingQueue ?u)" by (simp add: eval_defs)
  have e: "partners ?u ''a'' = Some ''b''" by (simp add: eval_defs)
  from bot_fallback_on_fire [where ?'v = unit, OF p' c] q'
  obtain u' where 2: "(handle (Fire 0) ?u :: error + unit out \<times> state) = Inr ([], u')"
    "partners u' = partners ?u"
    by blast
  from 1 have "\<exists>s'. (handle (Fire 0) ?s :: error + unit out \<times> state)
             = Inr ([(''a'', Paired bot True), (''a'', Message bot greeting)], s')
          \<and> ''a'' \<notin> set (waitingQueue s') \<and> partners s' ''a'' = Some bot"
    by auto
  moreover from 2 e have "\<exists>s'. (handle (Fire 0) ?u :: error + unit out \<times> state) = Inr ([], s')
          \<and> partners s' ''a'' = Some ''b''"
    by auto
  ultimately show ?thesis using p q n p' q' by blast
qed

text \<open>
  C3: every way out of the queue cancels the handle's pending bot fallback, so a handle
  never has two of them, and after find, leave, find it cannot be paired with the bot
  earlier than 15 seconds after it was last queued. Only the \<^verbatim>\<open>disconnect\<close> handler
  calls \<^verbatim>\<open>clearTimeout\<close>; \<^verbatim>\<open>leave\<close> and a match leave the timeout pending. A handle
  that is queued at 0 ms, leaves, and is queued again at 10000 ms has two pending
  fallbacks (due at 15000 and 25000 ms), and the first one, firing at 15000 ms, finds
  the handle in the queue and pairs it with the bot 5 seconds after it was queued.
\<close>

theorem stale_bot_timer_after_leave:
  "map_option (\<lambda>(out, s). (waitingQueue s, map (\<lambda>t. (tid t, due t, callback t)) (timers s), now s))
     (run [Connect ''a'', Find ''a'', Advance 10000, Leave ''a'', Find ''a'' :: unit event] initial)
   = Some ([''a''], [(0, 15000, BotFallback ''a''), (1, 25000, BotFallback ''a'')], 10000)
   \<and> map_option (\<lambda>(out, s). (waitingQueue s, partners s ''a'', now s))
     (run [Connect ''a'', Find ''a'', Advance 10000, Leave ''a'', Find ''a'',
           Advance 5000, Fire 0 :: unit event] initial)
   = Some ([], Some bot, 15000)"
  by (simp add: eval_defs)

subsection \<open>Signalling\<close>

text \<open>
  C6: a \<^verbatim>\<open>webrtc-answer\<close> from \<open>h\<close> whose \<^verbatim>\<open>payload.to\<close> is a connected handle \<open>t\<close>
  is delivered to \<open>t\<close> with \<^verbatim>\<open>from\<close> set to \<open>h\<close>, whatever the directory holds for \<open>h\<close>
  or \<open>t\<close>: the handler never reads the directory.
\<close>

theorem answer_reaches_any_live_target:
  "live s t \<Longrightarrow> to p = Some t \<Longrightarrow>
   on_webrtc_answer h (Some p) s = Inr ([(t, WebrtcAnswer h (sdp p))], s)"
  by (simp add: on_webrtc_answer_def)

theorem answer_reaches_any_live_target_witness:
  "live (after [Connect ''a'', Connect ''b'']) ''b''
   \<and> partners (after [Connect ''a'', Connect ''b'']) ''a'' = None
   \<and> on_webrtc_answer ''a'' (Some \<lparr>to = Some ''b'', sdp = ''v=0'', candidate = ''''\<rparr>)
        (after [Connect ''a'', Connect ''b''])
      = Inr ([(''b'', WebrtcAnswer ''a'' ''v=0'')], after [Connect ''a'', Connect ''b''])"
proof -
  have l: "live (after [Connect ''a'', Connect ''b'']) ''b''"
    by (simp add: eval_defs)
  have p: "partners (after [Connect ''a'', Connect ''b'']) ''a'' = None"
    by (simp add: eval_defs)
  show ?thesis
    using l p answer_reaches_any_live_target
      [OF l, of "\<lparr>to = Some ''b'', sdp = ''v=0'', candidate = ''''\<rparr>" "''a''"]
    by simp
qed

text \<open>
  The claim C4 as it stands, that an answer with no matching session is rejected with a
  status message to the sender, fails both ways: an answer addressed to a handle that is
  not connected emits nothing at all, and an answer from a handle with no pairing to a
  connected handle is delivered.
\<close>

theorem answer_without_session_counterexample:
  "on_webrtc_answer ''a'' (Some \<lparr>to = Some ''zz'', sdp = ''v=0'', candidate = ''''\<rparr>)
     (after [Connect ''a'']) = Inr ([], after [Connect ''a''])
   \<and> partners (after [Connect ''a'', Connect ''b'']) ''a'' = None
   \<and> partners (after [Connect ''a'', Connect ''b'']) ''b'' = None
   \<and> on_webrtc_answer ''a'' (Some \<lparr>to = Some ''b'', sdp = ''v=0'', candidate = ''''\<rparr>)
        (after [Connect ''a'', Connect ''b''])
      = Inr ([(''b'', WebrtcAnswer ''a'' ''v=0'')], after [Connect ''a'', Connect ''b''])"
  by (simp add: eval_defs)

text \<open>
  C4, amended: a \<^verbatim>\<open>webrtc-answer\<close> from \<open>h\<close> whose addressed handle has no live
  transport is dropped silently: nothing is emitted, no status message either, and no
  state is mutated.
\<close>

theorem answer_to_dead_target_dropped:
  "\<not> (\<exists>t. to p = Some t \<and> live s t) \<Longrightarrow> on_webrtc_answer h (Some p) s = Inr ([], s)"
  by (auto simp: on_webrtc_answer_def split: option.splits)

theorem answer_to_dead_target_dropped_witness:
  "\<not> (\<exists>t. to \<lparr>to = Some ''zz'', sdp = ''v=0'', candidate = ''''\<rparr> = Some t
          \<and> live (after [Connect ''a'']) t)
   \<and> on_webrtc_answer ''a'' (Some \<lparr>to = Some ''zz'', sdp = ''v=0'', candidate = ''''\<rparr>)
        (after [Connect ''a'']) = Inr ([], after [Connect ''a''])"
proof -
  have h: "\<not> (\<exists>t. to \<lparr>to = Some ''zz'', sdp = ''v=0'', candidate = ''''\<rparr> = Some t
          \<and> live (after [Connect ''a'']) t)"
    by (simp add: eval_defs)
  show ?thesis using h answer_to_dead_target_dropped [OF h, of "''a''"] by simp
qed


text \<open>
  C10: whatever a signalling handler forwards carries the submitted content unchanged:
  the \<^verbatim>\<open>sdp\<close> of a forwarded offer or answer is the \<^verbatim>\<open>sdp\<close> of the payload, the
  \<^verbatim>\<open>candidate\<close> of a forwarded candidate is the \<^verbatim>\<open>candidate\<close> of the payload, and the
  only field the relay adds is \<^verbatim>\<open>from\<close>, the sender's handle.
\<close>

theorem signalling_content_unchanged:
  "(on_webrtc_offer h (Some p) s = Inr (out, s') \<longrightarrow>
      (\<forall>(t, e) \<in> set out. e = WebrtcOffer h (sdp p)
          \<or> e = Status ''Partner disconnected (during offer).''))
   \<and> (on_webrtc_answer h (Some p) s = Inr (out, s') \<longrightarrow>
      (\<forall>(t, e) \<in> set out. e = WebrtcAnswer h (sdp p)))
   \<and> (on_webrtc_ice_candidate h (Some p) s = Inr (out, s') \<longrightarrow>
      (\<forall>(t, e) \<in> set out. e = WebrtcIceCandidate h (candidate p)))"
  by (auto simp: on_webrtc_offer_def on_webrtc_answer_def on_webrtc_ice_candidate_def Let_def
      split: if_splits option.splits)

theorem signalling_content_unchanged_witness:
  "on_webrtc_offer ''a'' (Some \<lparr>to = None, sdp = ''v=0'', candidate = ''c''\<rparr>)
     (after [Connect ''a'', Connect ''b'', Find ''a'', Find ''b''])
     = Inr ([(''b'', WebrtcOffer ''a'' ''v=0'')],
            after [Connect ''a'', Connect ''b'', Find ''a'', Find ''b''])
   \<and> list_all (\<lambda>(t, e). e = WebrtcOffer ''a'' ''v=0''
                   \<or> e = Status ''Partner disconnected (during offer).'')
       [(''b'', WebrtcOffer ''a'' ''v=0'')]
   \<and> on_webrtc_answer ''b'' (Some \<lparr>to = Some ''a'', sdp = ''v=1'', candidate = ''c''\<rparr>)
     (after [Connect ''a'', Connect ''b'', Find ''a'', Find ''b''])
     = Inr ([(''a'', WebrtcAnswer ''b'' ''v=1'')],
            after [Connect ''a'', Connect ''b'', Find ''a'', Find ''b''])
   \<and> list_all (\<lambda>(t, e). e = WebrtcAnswer ''b'' ''v=1'') [(''a'', WebrtcAnswer ''b'' ''v=1'')]
   \<and> on_webrtc_ice_candidate ''a'' (Some \<lparr>to = None, sdp = ''v=0'', candidate = ''c''\<rparr>)
     (after [Connect ''a'', Connect ''b'', Find ''a'', Find ''b''])
     = Inr ([(''b'', WebrtcIceCandidate ''a'' ''c'')],
            after [Connect ''a'', Connect ''b'', Find ''a'', Find ''b''])
   \<and> list_all (\<lambda>(t, e). e = WebrtcIceCandidate ''a'' ''c'')
       [(''b'', WebrtcIceCandidate ''a'' ''c'')]"
proof -
  let ?s = "after [Connect ''a'', Connect ''b'', Find ''a'', Find ''b'']"
  let ?p = "\<lparr>to = None, sdp = ''v=0'', candidate = ''c''\<rparr>"
  let ?q = "\<lparr>to = Some ''a'', sdp = ''v=1'', candidate = ''c''\<rparr>"
  have 1: "on_webrtc_offer ''a'' (Some ?p) ?s = Inr ([(''b'', WebrtcOffer ''a'' ''v=0'')], ?s)"
    by (simp add: eval_defs)
  have 2: "on_webrtc_answer ''b'' (Some ?q) ?s = Inr ([(''a'', WebrtcAnswer ''b'' ''v=1'')], ?s)"
    by (simp add: eval_defs)
  have 3: "on_webrtc_ice_candidate ''a'' (Some ?p) ?s
             = Inr ([(''b'', WebrtcIceCandidate ''a'' ''c'')], ?s)"
    by (simp add: eval_defs)
  show ?thesis
    using 1 2 3
      signalling_content_unchanged [of "''a''" ?p ?s "[(''b'', WebrtcOffer ''a'' ''v=0'')]" ?s]
      signalling_content_unchanged [of "''b''" ?q ?s "[(''a'', WebrtcAnswer ''b'' ''v=1'')]" ?s]
      signalling_content_unchanged [of "''a''" ?p ?s "[(''b'', WebrtcIceCandidate ''a'' ''c'')]" ?s]
    by simp
qed

subsection \<open>Chat with the bot\<close>

text \<open>
  C8: for every \<^verbatim>\<open>message\<close> from a handle \<open>h\<close> whose directory entry is the bot, the
  handler emits nothing (no echo to \<open>h\<close>, nothing to anyone else) and schedules one
  timeout, due 700 ms later, which cannot fire before that; when it fires, \<open>h\<close> alone is
  sent one message from \<^verbatim>\<open>bot\<close> whose text is the submitted text inside the template
  \<^verbatim>\<open>Bot: I heard "...".\<close>, and the state is left as it is.
\<close>

theorem bot_reply_after_delay:
  assumes "partners s h = Some bot"
  shows "(on_message h (Some d) s :: error + 'v out \<times> state) =
           Inr ([], s\<lparr>timers := timers s @
                       [\<lparr>tid = nextTimer s, due = now s + 700, callback = BotReply h (Some d)\<rparr>],
                     nextTimer := nextTimer s + 1\<rparr>)
       \<and> (\<forall>s2. (runCallback (BotReply h (Some d)) s2 :: error + 'v out \<times> state) =
              Inr ([(h, Message bot (''Bot: I heard '' @ [CHR 0x22] @ msgText d @ [CHR 0x22] @ ''.''))],
                   s2))
       \<and> (\<forall>s2. pending (nextTimer s) s2 =
                Some \<lparr>tid = nextTimer s, due = now s + 700, callback = BotReply h (Some d)\<rparr>
              \<longrightarrow> enabled (Fire (nextTimer s) :: 'v event) s2 = (now s + 700 \<le> now s2))"
  using assms
  by (simp add: on_message_def falsy_def bot_def setTimeout_def runCallback_def botReply_def
      botReplyText_def)

theorem bot_reply_after_delay_witness:
  "partners (after [Connect ''a'', Find ''a'', Advance 15000, Fire 0]) ''a'' = Some bot
   \<and> map_option (\<lambda>(out, s). (out, partners s ''a'', now s))
       (run [Connect ''a'', Find ''a'', Advance 15000, Fire 0,
             Msg ''a'' (Some \<lparr>msgText = ''hello''\<rparr>), Advance 700, Fire 1 :: unit event] initial)
     = Some ([(''a'', Status ''Waiting for a partner...''),
              (''a'', Paired bot True), (''a'', Message bot greeting),
              (''a'', Message bot (''Bot: I heard '' @ [CHR 0x22] @ ''hello'' @ [CHR 0x22] @ ''.''))],
             Some bot, 15700)
   \<and> (runCallback (BotReply ''a'' (Some \<lparr>msgText = ''hello''\<rparr>))
         (after [Connect ''a'', Find ''a'', Advance 15000, Fire 0]) :: error + unit out \<times> state)
     = Inr ([(''a'', Message bot (''Bot: I heard '' @ [CHR 0x22] @ ''hello'' @ [CHR 0x22] @ ''.''))],
            after [Connect ''a'', Find ''a'', Advance 15000, Fire 0])"
proof -
  let ?s = "after [Connect ''a'', Find ''a'', Advance 15000, Fire 0]"
  have b: "partners ?s ''a'' = Some bot" by (simp add: eval_defs)
  have r: "map_option (\<lambda>(out, s). (out, partners s ''a'', now s))
       (run [Connect ''a'', Find ''a'', Advance 15000, Fire 0,
             Msg ''a'' (Some \<lparr>msgText = ''hello''\<rparr>), Advance 700, Fire 1 :: unit event] initial)
     = Some ([(''a'', Status ''Waiting for a partner...''),
              (''a'', Paired bot True), (''a'', Message bot greeting),
              (''a'', Message bot (''Bot: I heard '' @ [CHR 0x22] @ ''hello'' @ [CHR 0x22] @ ''.''))],
             Some bot, 15700)"
    by (simp add: eval_defs botReplyText_def)
  from bot_reply_after_delay [where ?'v = unit, OF b, of "\<lparr>msgText = ''hello''\<rparr>"]
  have "(runCallback (BotReply ''a'' (Some \<lparr>msgText = ''hello''\<rparr>)) ?s :: error + unit out \<times> state)
     = Inr ([(''a'', Message bot (''Bot: I heard '' @ [CHR 0x22] @ ''hello'' @ [CHR 0x22] @ ''.''))], ?s)"
    by simp
  with b r show ?thesis by simp
qed

subsection \<open>The directory is symmetric in every reachable state\<close>

lemma consistent_initial: "consistent initial"
  by (simp add: consistent_def initial_def live_def)

lemma consistent_cong:
  "consistent s \<Longrightarrow> partners t = partners s \<Longrightarrow> waitingQueue t = waitingQueue s \<Longrightarrow>
   live t = live s \<Longrightarrow> consistent t"
  by (simp add: consistent_def)

lemma bot_nonempty [simp]: "bot \<noteq> []" "[] \<noteq> bot"
  by (simp_all add: bot_def)

lemma partner_facts:
  "consistent s \<Longrightarrow> partners s a = Some b \<Longrightarrow>
   live s a \<and> b \<noteq> [] \<and> (b = bot \<or> (live s b \<and> partners s b = Some a))"
  by (simp add: consistent_def)

lemma partner_back:
  "consistent s \<Longrightarrow> partners s a = Some b \<Longrightarrow> b \<noteq> bot \<Longrightarrow> partners s b = Some a"
  using partner_facts [of s a b] by simp

lemma partner_live: "consistent s \<Longrightarrow> partners s a = Some b \<Longrightarrow> live s a"
  using partner_facts [of s a b] by simp

lemma partner_peer_live:
  "consistent s \<Longrightarrow> partners s a = Some b \<Longrightarrow> b \<noteq> bot \<Longrightarrow> live s b"
  using partner_facts [of s a b] by simp

lemma partner_nonempty: "consistent s \<Longrightarrow> partners s a = Some b \<Longrightarrow> b \<noteq> []"
  using partner_facts [of s a b] by simp

lemma live_valid: "consistent s \<Longrightarrow> live s i \<Longrightarrow> i \<noteq> [] \<and> i \<noteq> bot"
  by (simp add: consistent_def)

lemma queue_live: "consistent s \<Longrightarrow> q \<in> set (waitingQueue s) \<Longrightarrow> live s q"
  by (simp add: consistent_def)

lemma queue_unpaired: "consistent s \<Longrightarrow> q \<in> set (waitingQueue s) \<Longrightarrow> partners s q = None"
  by (simp add: consistent_def)

lemma queue_short: "consistent s \<Longrightarrow> length (waitingQueue s) \<le> 1"
  by (simp add: consistent_def)

lemma consistentI:
  assumes "\<And>a b. partners t a = Some b \<Longrightarrow>
             live t a \<and> b \<noteq> [] \<and> (b = bot \<or> (live t b \<and> partners t b = Some a))"
    and "\<And>q. q \<in> set (waitingQueue t) \<Longrightarrow> live t q \<and> partners t q = None"
    and "length (waitingQueue t) \<le> 1"
    and "\<And>i. live t i \<Longrightarrow> i \<noteq> [] \<and> i \<noteq> bot"
  shows "consistent t"
  unfolding consistent_def using assms by simp

lemma nobody_points:
  assumes "consistent s" "live s h" "partners s h = None"
  shows "partners s a \<noteq> Some h"
proof
  assume A: "partners s a = Some h"
  have "h \<noteq> bot" using live_valid [OF assms(1,2)] by simp
  from partner_back [OF assms(1) A this] assms(3) show False by simp
qed

lemma points_unique:
  assumes "consistent s" "partners s a = Some b" "partners s c = Some b" "b \<noteq> bot"
  shows "a = c"
  using partner_back [OF assms(1,2,4)] partner_back [OF assms(1,3,4)] by simp

lemma partners_find:
  "partners (snd (on_find h s)) =
     (if partners s h \<noteq> None then partners s
      else case waitingQueue s of
             [] \<Rightarrow> partners s
           | q # r \<Rightarrow> if live s q then ((partners s)(h \<mapsto> q))(q \<mapsto> h) else partners s)"
  by (simp add: on_find_def pairSockets_def setTimeout_def live_def Let_def ENABLE_BOT_FALLBACK_def
      split: list.splits)

lemma queue_find:
  "waitingQueue (snd (on_find h s)) =
     (if partners s h \<noteq> None then waitingQueue s
      else case waitingQueue s of [] \<Rightarrow> [h] | q # r \<Rightarrow> r)"
  by (simp add: on_find_def pairSockets_def setTimeout_def live_def Let_def ENABLE_BOT_FALLBACK_def
      split: list.splits)

lemma live_find_at: "live (snd (on_find h s)) i = live s i"
  by (simp add: on_find_def pairSockets_def setTimeout_def live_def Let_def ENABLE_BOT_FALLBACK_def
      split: list.splits option.splits)

lemma live_find: "live (snd (on_find h s)) = live s"
  by (rule ext) (rule live_find_at)

lemma consistent_find:
  fixes h :: sid
  assumes c: "consistent s" and lh: "live s h"
  defines "t \<equiv> snd (on_find h s :: 'v out \<times> state)"
  shows "consistent t"
proof -
  have L: "live t = live s" by (simp add: t_def live_find)
  show ?thesis
  proof (cases "partners s h")
    case (Some p)
    then have "partners t = partners s" "waitingQueue t = waitingQueue s"
      by (simp_all add: t_def partners_find queue_find)
    then show ?thesis using c L by (simp add: consistent_cong)
  next
    case None
    note hv = live_valid [OF c lh]
    have Kh: "(partners s a = Some h) = False" for a
      using nobody_points [OF c lh None] by simp
    show ?thesis
    proof (cases "waitingQueue s")
      case Nil
      then have "partners t = partners s" "waitingQueue t = [h]"
        using None by (simp_all add: t_def partners_find queue_find)
      then show ?thesis using c lh None Nil unfolding consistent_def L by simp
    next
      case (Cons q r)
      have r: "r = []" using queue_short [OF c] Cons by simp
      have lq: "live s q" and pq: "partners s q = None"
        using queue_live [OF c, of q] queue_unpaired [OF c, of q] Cons by simp_all
      note qv = live_valid [OF c lq]
      have Kq: "(partners s a = Some q) = False" for a
        using nobody_points [OF c lq pq] by simp
      have P: "partners t = ((partners s)(h \<mapsto> q))(q \<mapsto> h)" "waitingQueue t = []"
        using None Cons r lq by (simp_all add: t_def partners_find queue_find)
      show ?thesis
      proof (rule consistentI)
        fix a b
        assume A: "partners t a = Some b"
        show "live t a \<and> b \<noteq> [] \<and> (b = bot \<or> (live t b \<and> partners t b = Some a))"
          using A partner_facts [OF c, of a b] Kh [of a] Kq [of a] lh lq hv qv
          unfolding L P by (auto split: if_splits)
      next
        fix x assume "x \<in> set (waitingQueue t)"
        then show "live t x \<and> partners t x = None" by (simp add: P)
      next
        show "length (waitingQueue t) \<le> 1" by (simp add: P)
      next
        fix i assume "live t i"
        then show "i \<noteq> [] \<and> i \<noteq> bot" using live_valid [OF c, of i] by (simp add: L)
      qed
    qed
  qed
qed

lemma partners_leave:
  "partners (snd (on_leave h s)) =
     (case partners s h of
        None \<Rightarrow> partners s
      | Some p \<Rightarrow>
          if p = bot then (partners s)(h := None)
          else if p = [] then partners s
          else if live s p then (partners s)(p := None, h := None)
          else (partners s)(h := None))"
  by (simp add: on_leave_def falsy_def Let_def split: option.splits)

lemma queue_leave:
  "waitingQueue (snd (on_leave h s)) =
     (if partners s h = None \<or> partners s h = Some []
      then filter (\<lambda>i. i \<noteq> h) (waitingQueue s) else waitingQueue s)"
  by (simp add: on_leave_def falsy_def Let_def split: option.splits)

lemma live_leave: "live (snd (on_leave h s)) = live s"
  by (rule ext) (simp add: on_leave_def live_def Let_def split: option.splits)

lemma length_filter_le1: "length xs \<le> Suc 0 \<Longrightarrow> length (filter P xs) \<le> Suc 0"
  by (rule order_trans [OF length_filter_le])

text \<open>Who points at the two ends of a pairing.\<close>

lemma pointers_of_pair:
  assumes c: "consistent s" and hp: "partners s h = Some p" and pb: "p \<noteq> bot"
  shows "(partners s a = Some h) = (a = p)" and "(partners s a = Some p) = (a = h)"
proof -
  have hb: "h \<noteq> bot" using live_valid [OF c partner_live [OF c hp]] by simp
  have ph: "partners s p = Some h" by (rule partner_back [OF c hp pb])
  show "(partners s a = Some h) = (a = p)"
    using points_unique [OF c _ ph hb, of a] ph by auto
  show "(partners s a = Some p) = (a = h)"
    using points_unique [OF c _ hp pb, of a] hp by auto
qed

lemma pointers_of_bot_pair:
  assumes c: "consistent s" and hp: "partners s h = Some bot"
  shows "partners s a \<noteq> Some h"
proof
  assume A: "partners s a = Some h"
  have hb: "h \<noteq> bot" using live_valid [OF c partner_live [OF c hp]] by simp
  from partner_back [OF c A hb] hp have "a = bot" by simp
  then show False using live_valid [OF c partner_live [OF c A]] by simp
qed

lemma consistent_leave:
  fixes h :: sid
  assumes c: "consistent s"
  defines "t \<equiv> snd (on_leave h s :: 'v out \<times> state)"
  shows "consistent t"
proof -
  have L: "live t = live s" by (simp add: t_def live_leave)
  show ?thesis
  proof (cases "partners s h")
    case None
    then have P: "partners t = partners s"
      "waitingQueue t = filter (\<lambda>i. i \<noteq> h) (waitingQueue s)"
      by (simp_all add: t_def partners_leave queue_leave)
    show ?thesis
    proof (rule consistentI)
      fix a b assume "partners t a = Some b"
      then show "live t a \<and> b \<noteq> [] \<and> (b = bot \<or> (live t b \<and> partners t b = Some a))"
        using partner_facts [OF c, of a b] by (simp add: L P)
    next
      fix x assume "x \<in> set (waitingQueue t)"
      then show "live t x \<and> partners t x = None"
        using queue_live [OF c, of x] queue_unpaired [OF c, of x] by (simp add: L P)
    next
      show "length (waitingQueue t) \<le> 1"
        using queue_short [OF c] by (simp add: P length_filter_le1)
    next
      fix i assume "live t i"
      then show "i \<noteq> [] \<and> i \<noteq> bot" using live_valid [OF c, of i] by (simp add: L)
    qed
  next
    case (Some p)
    have pn: "p \<noteq> []" by (rule partner_nonempty [OF c Some])
    have Q: "waitingQueue t = waitingQueue s"
      using Some pn by (simp add: t_def queue_leave)
    have P: "partners t = (if p = bot then (partners s)(h := None)
                           else (partners s)(p := None, h := None))"
      using Some pn partner_peer_live [OF c Some] by (simp add: t_def partners_leave)
    show ?thesis
    proof (rule consistentI)
      fix a b assume A: "partners t a = Some b"
      show "live t a \<and> b \<noteq> [] \<and> (b = bot \<or> (live t b \<and> partners t b = Some a))"
      proof (cases "p = bot")
        case True
        with A P have ah: "a \<noteq> h" and sa: "partners s a = Some b"
          by (auto split: if_splits)
        have "b \<noteq> h" using pointers_of_bot_pair [OF c, of h a] Some True sa by auto
        then show ?thesis using partner_facts [OF c sa] True by (simp add: L P)
      next
        case False
        with A P have ah: "a \<noteq> h" "a \<noteq> p" and sa: "partners s a = Some b"
          by (auto split: if_splits)
        have "b \<noteq> h" "b \<noteq> p"
          using pointers_of_pair [OF c Some False, of a] sa ah by auto
        then show ?thesis using partner_facts [OF c sa] False by (simp add: L P)
      qed
    next
      fix x assume "x \<in> set (waitingQueue t)"
      then show "live t x \<and> partners t x = None"
        using queue_live [OF c, of x] queue_unpaired [OF c, of x] by (simp add: L P Q)
    next
      show "length (waitingQueue t) \<le> 1" using queue_short [OF c] by (simp add: Q)
    next
      fix i assume "live t i"
      then show "i \<noteq> [] \<and> i \<noteq> bot" using live_valid [OF c, of i] by (simp add: L)
    qed
  qed
qed

lemma partners_disconnect:
  "partners (snd (on_disconnect h u)) =
     (case partners u h of
        None \<Rightarrow> partners u
      | Some p \<Rightarrow>
          if p = [] then partners u
          else if p = bot then (partners u)(h := None)
          else if live u p then (partners u)(p := None, h := None)
          else (partners u)(h := None))"
  by (simp add: on_disconnect_def clearTimeout_def falsy_def live_def Let_def
      split: option.splits)

lemma queue_disconnect:
  "waitingQueue (snd (on_disconnect h u)) = filter (\<lambda>i. i \<noteq> h) (waitingQueue u)"
  by (simp add: on_disconnect_def clearTimeout_def falsy_def live_def Let_def
      split: option.splits)

lemma live_disconnect: "live (snd (on_disconnect h u)) = live u"
  by (rule ext)
    (simp add: on_disconnect_def clearTimeout_def falsy_def live_def Let_def
      split: option.splits)

lemma closeSocket_fields:
  "partners (closeSocket h s) = partners s"
  "waitingQueue (closeSocket h s) = waitingQueue s"
  "live (closeSocket h s) i = (live s i \<and> i \<noteq> h)"
  by (simp_all add: closeSocket_def live_def split: option.splits)

lemma consistent_disconnect:
  fixes h :: sid
  assumes c: "consistent s"
  defines "t \<equiv> snd (on_disconnect h (closeSocket h s) :: 'v out \<times> state)"
  shows "consistent t"
proof -
  have L: "live t i = (live s i \<and> i \<noteq> h)" for i
    by (simp add: t_def live_disconnect closeSocket_fields)
  have Q: "waitingQueue t = filter (\<lambda>i. i \<noteq> h) (waitingQueue s)"
    by (simp add: t_def queue_disconnect closeSocket_fields)
  have P: "partners t =
     (case partners s h of
        None \<Rightarrow> partners s
      | Some p \<Rightarrow>
          if p = bot then (partners s)(h := None)
          else (partners s)(p := None, h := None))"
  proof (cases "partners s h")
    case None
    then show ?thesis by (simp add: t_def partners_disconnect closeSocket_fields)
  next
    case (Some p)
    have "p \<noteq> []" by (rule partner_nonempty [OF c Some])
    moreover have "p \<noteq> bot \<Longrightarrow> live s p" by (rule partner_peer_live [OF c Some])
    ultimately show ?thesis using Some
      by (auto simp: t_def partners_disconnect closeSocket_fields)
  qed
  show ?thesis
  proof (rule consistentI)
    fix a b assume A: "partners t a = Some b"
    show "live t a \<and> b \<noteq> [] \<and> (b = bot \<or> (live t b \<and> partners t b = Some a))"
    proof (cases "partners s h")
      case None
      with A P have sa: "partners s a = Some b" by simp
      have "a \<noteq> h" using sa None by auto
      moreover have "b \<noteq> bot \<Longrightarrow> b \<noteq> h" using partner_back [OF c sa] None by auto
      ultimately show ?thesis using partner_facts [OF c sa] None sa by (auto simp: L P)
    next
      case (Some p)
      show ?thesis
      proof (cases "p = bot")
        case True
        with A P Some have ah: "a \<noteq> h" and sa: "partners s a = Some b"
          by (auto split: if_splits)
        have "b \<noteq> h" using pointers_of_bot_pair [OF c, of h a] Some True sa by auto
        then show ?thesis using partner_facts [OF c sa] Some True ah by (auto simp: L P)
      next
        case False
        with A P Some have ah: "a \<noteq> h" "a \<noteq> p" and sa: "partners s a = Some b"
          by (auto split: if_splits)
        have "b \<noteq> h" "b \<noteq> p"
          using pointers_of_pair [OF c Some False, of a] sa ah by auto
        then show ?thesis using partner_facts [OF c sa] Some False ah by (auto simp: L P)
      qed
    qed
  next
    fix x assume "x \<in> set (waitingQueue t)"
    then have x: "x \<in> set (waitingQueue s)" "x \<noteq> h" by (simp_all add: Q)
    have "partners t x = None"
      using queue_unpaired [OF c x(1)] by (simp add: P split: option.splits)
    then show "live t x \<and> partners t x = None"
      using queue_live [OF c x(1)] x(2) by (simp add: L)
  next
    show "length (waitingQueue t) \<le> 1"
      using queue_short [OF c] by (simp add: Q length_filter_le1)
  next
    fix i assume "live t i"
    then show "i \<noteq> [] \<and> i \<noteq> bot" using live_valid [OF c, of i] by (simp add: L)
  qed
qed

lemma consistent_botFallback:
  fixes h :: sid
  assumes c: "consistent s"
  defines "t \<equiv> snd (botFallback h s :: 'v out \<times> state)"
  shows "consistent t"
proof (cases "h \<in> set (waitingQueue s) \<and> partners s h = None")
  case False
  then have "t = s" by (auto simp: t_def botFallback_def)
  then show ?thesis using c by simp
next
  case True
  have L: "live t = live s" using True by (simp add: t_def botFallback_def live_def fun_eq_iff)
  have P: "partners t = (partners s)(h \<mapsto> bot)"
    "waitingQueue t = filter (\<lambda>i. i \<noteq> h) (waitingQueue s)"
    using True by (simp_all add: t_def botFallback_def)
  have lh: "live s h" using queue_live [OF c] True by simp
  show ?thesis
  proof (rule consistentI)
    fix a b assume A: "partners t a = Some b"
    show "live t a \<and> b \<noteq> [] \<and> (b = bot \<or> (live t b \<and> partners t b = Some a))"
    proof (cases "a = h")
      case True
      then show ?thesis using A lh by (simp add: L P)
    next
      case False
      with A have sa: "partners s a = Some b" by (simp add: P)
      have "b \<noteq> h" using nobody_points [OF c lh, of a] True sa by auto
      then show ?thesis using partner_facts [OF c sa] False by (simp add: L P)
    qed
  next
    fix x assume "x \<in> set (waitingQueue t)"
    then show "live t x \<and> partners t x = None"
      using queue_live [OF c, of x] queue_unpaired [OF c, of x] by (simp add: L P)
  next
    show "length (waitingQueue t) \<le> 1"
      using queue_short [OF c] by (simp add: P length_filter_le1)
  next
    fix i assume "live t i"
    then show "i \<noteq> [] \<and> i \<noteq> bot" using live_valid [OF c, of i] by (simp add: L)
  qed
qed

lemma consistent_openSocket:
  assumes c: "consistent s" and h: "h \<noteq> []" "h \<noteq> bot"
  shows "consistent (openSocket h s)"
proof -
  have L: "live (openSocket h s) i = (i = h \<or> live s i)" for i
    by (simp add: openSocket_def live_def)
  have P: "partners (openSocket h s) = partners s"
    "waitingQueue (openSocket h s) = waitingQueue s"
    by (simp_all add: openSocket_def)
  show ?thesis
  proof (rule consistentI)
    fix a b assume "partners (openSocket h s) a = Some b"
    then show "live (openSocket h s) a \<and> b \<noteq> [] \<and>
        (b = bot \<or> (live (openSocket h s) b \<and> partners (openSocket h s) b = Some a))"
      using partner_facts [OF c, of a b] by (auto simp: L P)
  next
    fix x assume "x \<in> set (waitingQueue (openSocket h s))"
    then show "live (openSocket h s) x \<and> partners (openSocket h s) x = None"
      using queue_live [OF c, of x] queue_unpaired [OF c, of x] by (simp add: L P)
  next
    show "length (waitingQueue (openSocket h s)) \<le> 1" using queue_short [OF c] by (simp add: P)
  next
    fix i assume "live (openSocket h s) i"
    then show "i \<noteq> [] \<and> i \<noteq> bot" using live_valid [OF c, of i] h by (auto simp: L)
  qed
qed

lemma offer_state: "on_webrtc_offer h p s = Inr (out, t) \<Longrightarrow> t = s"
  by (auto simp: on_webrtc_offer_def Let_def split: if_splits option.splits)

lemma answer_state: "on_webrtc_answer h p s = Inr (out, t) \<Longrightarrow> t = s"
  by (auto simp: on_webrtc_answer_def split: if_splits option.splits)

lemma ice_state: "on_webrtc_ice_candidate h p s = Inr (out, t) \<Longrightarrow> t = s"
  by (auto simp: on_webrtc_ice_candidate_def Let_def split: if_splits option.splits)

lemma typing_state: "snd (on_typing h b s) = s"
  by (simp add: on_typing_def Let_def)

lemma consistent_message:
  assumes c: "consistent s" and r: "on_message h d s = Inr (out, t)"
  shows "consistent t"
proof (cases "partners s h")
  case None
  with r have "t = s" by (simp add: on_message_def falsy_def)
  then show ?thesis using c by simp
next
  case (Some p)
  have pn: "p \<noteq> []" by (rule partner_nonempty [OF c Some])
  show ?thesis
  proof (cases "p = bot")
    case True
    with r Some pn have "t = snd (setTimeout (BotReply h d) 700 s)"
      by (auto simp: on_message_def falsy_def)
    then have "partners t = partners s" "waitingQueue t = waitingQueue s" "live t = live s"
      by (simp_all add: setTimeout_def live_def fun_eq_iff)
    then show ?thesis by (rule consistent_cong [OF c])
  next
    case False
    have "live s p" by (rule partner_peer_live [OF c Some False])
    with r Some pn False have "t = s"
      by (auto simp: on_message_def falsy_def split: option.splits)
    then show ?thesis using c by simp
  qed
qed

lemma consistent_clearTimeout: "consistent s \<Longrightarrow> consistent (clearTimeout i s)"
  using consistent_cong [of s "clearTimeout i s"]
  by (simp add: clearTimeout_def live_def fun_eq_iff)

lemma consistent_runCallback:
  assumes c: "consistent s" and r: "runCallback cb s = Inr (out, t)"
  shows "consistent t"
proof (cases cb)
  case (BotFallback h)
  with r have "t = snd (botFallback h s :: 'a out \<times> state)"
    by (auto simp: runCallback_def)
  then show ?thesis using consistent_botFallback [OF c] by simp
next
  case (BotReply h d)
  with r have "t = s" by (auto simp: runCallback_def botReply_def split: option.splits)
  then show ?thesis using c by simp
qed

lemma consistent_handle:
  assumes c: "consistent s" and en: "enabled e s" and r: "handle e s = Inr (out, t)"
  shows "consistent t"
proof (cases e)
  case (Connect h)
  then show ?thesis using c en r consistent_openSocket [OF c, of h] by auto
next
  case (Find h)
  then have "t = snd (on_find h s :: 'a out \<times> state)" using r by auto
  then show ?thesis using consistent_find [OF c, of h] en Find by simp
next
  case (Offer h p)
  then show ?thesis using c r offer_state [of h p s out t] by simp
next
  case (Answer h p)
  then show ?thesis using c r answer_state [of h p s out t] by simp
next
  case (IceCandidate h p)
  then show ?thesis using c r ice_state [of h p s out t] by simp
next
  case (Msg h d)
  then show ?thesis using c r consistent_message [of s h d out t] by simp
next
  case (TypingEv h b)
  then have "t = snd (on_typing h b s)" using r by auto
  then show ?thesis using c by (simp add: typing_state)
next
  case (Leave h)
  then have "t = snd (on_leave h s :: 'a out \<times> state)" using r by auto
  then show ?thesis using consistent_leave [OF c] by simp
next
  case (Disconnect h)
  then have "t = snd (on_disconnect h (closeSocket h s) :: 'a out \<times> state)" using r by auto
  then show ?thesis using consistent_disconnect [OF c] by simp
next
  case (Fire i)
  show ?thesis
  proof (cases "pending i s")
    case None
    then show ?thesis using c r Fire by simp
  next
    case (Some tm)
    then have "runCallback (callback tm) (clearTimeout i s) = Inr (out, t)"
      using r Fire by simp
    then show ?thesis by (rule consistent_runCallback [OF consistent_clearTimeout [OF c]])
  qed
next
  case (Advance d)
  then have "t = s\<lparr>now := now s + d\<rparr>" using r by auto
  then have "partners t = partners s" "waitingQueue t = waitingQueue s" "live t = live s"
    by (simp_all add: live_def fun_eq_iff)
  then show ?thesis by (rule consistent_cong [OF c])
qed

lemma consistent_run:
  "consistent s \<Longrightarrow> run es s = Some (out, t) \<Longrightarrow> consistent t"
proof (induction es arbitrary: s out)
  case Nil
  then show ?case by simp
next
  case (Cons e es)
  from Cons.prems(2) obtain o1 s1 o2 where
    en: "enabled e s" and h: "handle e s = Inr (o1, s1)" and r: "run es s1 = Some (o2, t)"
    by (auto split: if_splits sum.splits option.splits)
  from Cons.IH [OF consistent_handle [OF Cons.prems(1) en h] r] show ?case .
qed


text \<open>
  In a reachable state the partner a directory entry names is connected: the branches
  of the handlers for a partner that is gone are never taken.
\<close>

lemma partner_is_live:
  assumes "run es initial = Some (out, s)" and "partners s h = Some p" and "p \<noteq> bot"
  shows "live s p"
  using partner_peer_live [OF consistent_run [OF consistent_initial assms(1)] assms(2,3)] .

text \<open>
  C2: the directory is symmetric at every quiescent point, that is in every state a run
  of events (connections, \<^verbatim>\<open>find\<close>, signalling, messages with their cleanup, \<^verbatim>\<open>leave\<close>,
  disconnections, timeouts firing) reaches from the initial state: if the entry of \<open>a\<close>
  is \<open>b\<close> and \<open>b\<close> is not the bot, the entry of \<open>b\<close> is \<open>a\<close>. In particular
  \<^verbatim>\<open>leave\<close> and \<^verbatim>\<open>disconnect\<close> of a handle with a human partner delete both entries,
  and so does the cleanup of \<^verbatim>\<open>message\<close>.
\<close>

theorem directory_symmetric:
  fixes es :: "'v event list"
  assumes "run es initial = Some (out, s)"
  shows "(\<forall>a b. partners s a = Some b \<longrightarrow> b \<noteq> bot \<longrightarrow> partners s b = Some a)
    \<and> (\<forall>h p. partners s h = Some p \<longrightarrow> p \<noteq> bot \<longrightarrow>
          partners (snd (on_leave h s :: 'v out \<times> state)) h = None
        \<and> partners (snd (on_leave h s :: 'v out \<times> state)) p = None
        \<and> partners (snd (on_disconnect h (closeSocket h s) :: 'v out \<times> state)) h = None
        \<and> partners (snd (on_disconnect h (closeSocket h s) :: 'v out \<times> state)) p = None
        \<and> partners (cleanupPartner h s) h = None
        \<and> partners (cleanupPartner h s) p = None)"
proof -
  have c: "consistent s" by (rule consistent_run [OF consistent_initial assms])
  have 1: "\<forall>a b. partners s a = Some b \<longrightarrow> b \<noteq> bot \<longrightarrow> partners s b = Some a"
    using partner_back [OF c] by blast
  have 2: "partners (snd (on_leave h s :: 'v out \<times> state)) h = None
        \<and> partners (snd (on_leave h s :: 'v out \<times> state)) p = None
        \<and> partners (snd (on_disconnect h (closeSocket h s) :: 'v out \<times> state)) h = None
        \<and> partners (snd (on_disconnect h (closeSocket h s) :: 'v out \<times> state)) p = None
        \<and> partners (cleanupPartner h s) h = None
        \<and> partners (cleanupPartner h s) p = None"
    if hp: "partners s h = Some p" and pb: "p \<noteq> bot" for h p
  proof -
    have pn: "p \<noteq> []" by (rule partner_nonempty [OF c hp])
    have lp: "live s p" by (rule partner_peer_live [OF c hp pb])
    show ?thesis
      using hp pb pn lp
      by (simp add: partners_leave partners_disconnect closeSocket_fields cleanupPartner_def
          falsy_def Let_def)
  qed
  from 1 2 show ?thesis by blast
qed

theorem directory_symmetric_witness:
  "run [Connect ''a'', Connect ''b'', Find ''a'', Find ''b'' :: unit event] initial
     = Some ([(''a'', Status ''Waiting for a partner...''),
              (''b'', Paired ''a'' False), (''a'', Paired ''b'' False)],
             after [Connect ''a'', Connect ''b'', Find ''a'', Find ''b''])
   \<and> partners (after [Connect ''a'', Connect ''b'', Find ''a'', Find ''b'']) ''b'' = Some ''a''
   \<and> ''a'' \<noteq> bot
   \<and> partners (after [Connect ''a'', Connect ''b'', Find ''a'', Find ''b'']) ''a'' = Some ''b''
   \<and> partners (snd (on_leave ''b'' (after [Connect ''a'', Connect ''b'', Find ''a'', Find ''b''])
         :: unit out \<times> state)) ''a'' = None
   \<and> partners (snd (on_leave ''b'' (after [Connect ''a'', Connect ''b'', Find ''a'', Find ''b''])
         :: unit out \<times> state)) ''b'' = None"
proof -
  let ?es = "[Connect ''a'', Connect ''b'', Find ''a'', Find ''b'' :: unit event]"
  have r: "run ?es initial
     = Some ([(''a'', Status ''Waiting for a partner...''),
              (''b'', Paired ''a'' False), (''a'', Paired ''b'' False)], after ?es)"
    by (simp add: eval_defs)
  have p: "partners (after ?es) ''b'' = Some ''a''" by (simp add: eval_defs)
  have n: "''a'' \<noteq> bot" by (simp add: bot_def)
  from directory_symmetric [OF r] p n
  have "partners (after ?es) ''a'' = Some ''b''"
    and "partners (snd (on_leave ''b'' (after ?es) :: unit out \<times> state)) ''a'' = None"
    and "partners (snd (on_leave ''b'' (after ?es) :: unit out \<times> state)) ''b'' = None"
    by blast+
  with r p n show ?thesis by simp
qed

subsection \<open>Offers in reachable states\<close>



subsection \<open>find from distinct handles\<close>

text \<open>
  When every handle sends \<^verbatim>\<open>find\<close> once, the handler does pair and queue as intended:
  from the state in which the handles have connected, after \<^verbatim>\<open>find\<close> events from
  distinct handles each of them is waiting or has a directory entry, never both, and
  none is its own partner.
\<close>

lemma settled_find:
  fixes h :: sid
  assumes g: "settled s D" and new: "h \<notin> D" and lh: "live s h"
  defines "t \<equiv> snd (on_find h s :: 'v out \<times> state)"
  shows "settled t (insert h D)"
proof -
  have c: "consistent s" using g by (simp add: settled_def)
  have ct: "consistent t" unfolding t_def by (rule consistent_find [OF c lh])
  have none: "partners s h = None" using g new by (auto simp: settled_def)
  show ?thesis
  proof (cases "waitingQueue s")
    case Nil
    then have P: "partners t = partners s" "waitingQueue t = [h]"
      using none by (simp_all add: t_def partners_find queue_find)
    show ?thesis using g ct Nil unfolding settled_def P by auto
  next
    case (Cons q r)
    have r: "r = []" using queue_short [OF c] Cons by simp
    have lq: "live s q" using queue_live [OF c, of q] Cons by simp
    have qD: "q \<in> D" using g Cons by (auto simp: settled_def)
    then have qh: "q \<noteq> h" using new by auto
    have P: "partners t = ((partners s)(h \<mapsto> q))(q \<mapsto> h)" "waitingQueue t = []"
      using none Cons r lq by (simp_all add: t_def partners_find queue_find)
    show ?thesis using g ct Cons r qD qh unfolding settled_def P by auto
  qed
qed

lemma settled_finds:
  "settled s D \<Longrightarrow> distinct fs \<Longrightarrow> set fs \<inter> D = {} \<Longrightarrow>
   run (map Find fs :: 'v event list) s = Some (out, t) \<Longrightarrow> settled t (D \<union> set fs)"
proof (induction fs arbitrary: s D out)
  case Nil
  then show ?case by simp
next
  case (Cons h fs)
  from Cons.prems(4) obtain o2 where
    lh: "live s h"
    and r: "run (map Find fs :: 'v event list) (snd (on_find h s :: 'v out \<times> state)) = Some (o2, t)"
    by (auto split: if_splits option.splits prod.splits)
  have new: "h \<notin> D" using Cons.prems(3) by auto
  have g: "settled (snd (on_find h s :: 'v out \<times> state)) (insert h D)"
    by (rule settled_find [OF Cons.prems(1) new lh])
  have "settled t (insert h D \<union> set fs)"
    using Cons.IH [OF g _ _ r] Cons.prems(2,3) by auto
  then show ?case by simp
qed

lemma connects_only:
  "run (map Connect hs :: 'v event list) s = Some (out, t) \<Longrightarrow>
   partners t = partners s \<and> waitingQueue t = waitingQueue s"
proof (induction hs arbitrary: s out)
  case Nil
  then show ?case by simp
next
  case (Cons h hs)
  from Cons.prems obtain o2
    where "run (map Connect hs :: 'v event list) (openSocket h s) = Some (o2, t)"
    by (auto split: if_splits option.splits prod.splits)
  from Cons.IH [OF this] show ?case by (simp add: openSocket_def)
qed

lemma finds_from_distinct_handles:
  assumes "run (map Connect hs) initial = Some (o0, s0)"
    and "run (map Find fs) s0 = Some (out, s)" and "distinct fs"
  shows "\<forall>h \<in> set fs. (h \<in> set (waitingQueue s)) \<noteq> (partners s h \<noteq> None)
           \<and> partners s h \<noteq> Some h"
proof -
  have c0: "consistent s0" by (rule consistent_run [OF consistent_initial assms(1)])
  have "partners s0 = Map.empty" "waitingQueue s0 = []"
    using connects_only [OF assms(1)] by (simp_all add: initial_def)
  then have "settled s0 {}" using c0 by (simp add: settled_def)
  from settled_finds [OF this assms(3) _ assms(2)] have g: "settled s (set fs)" by simp
  then have c: "consistent s" by (simp add: settled_def)
  show ?thesis
  proof
    fix h assume h: "h \<in> set fs"
    have "h \<in> set (waitingQueue s) \<or> partners s h \<noteq> None"
      using g h by (auto simp: settled_def)
    moreover have "h \<in> set (waitingQueue s) \<Longrightarrow> partners s h = None"
      by (rule queue_unpaired [OF c])
    moreover have "partners s h \<noteq> Some h" using g by (simp add: settled_def)
    ultimately show "(h \<in> set (waitingQueue s)) \<noteq> (partners s h \<noteq> None)
           \<and> partners s h \<noteq> Some h" by auto
  qed
qed


end
